theory Spec2Isabelle
  imports Main "HOL-Library.Sublist"
begin

section \<open>Python string primitives used by the retrieval core\<close>

text \<open>
  Strings are lists of 8-bit characters, read as the code points 0-255 of a Python
  \<^verbatim>\<open>str\<close>. On these, the whitespace of \<^verbatim>\<open>str.split()\<close>, \<^verbatim>\<open>str.strip()\<close> and of the
  regular expression class \<^verbatim>\<open>\s\<close> is the set of code points 9-13, 28-32, 133 and 160,
  and \<^verbatim>\<open>str.lower\<close> adds 32 to the capitals 65-90 and 192-222 (215, the multiplication
  sign, apart) and leaves every other code point as it is.
\<close>

definition is_space :: "char \<Rightarrow> bool" where
  "is_space c =
     (let n = (of_char c :: nat)
      in (9 \<le> n \<and> n \<le> 13) \<or> (28 \<le> n \<and> n \<le> 32) \<or> n = 133 \<or> n = 160)"

definition lower_char :: "char \<Rightarrow> char" where
  "lower_char c =
     (let n = (of_char c :: nat)
      in if (65 \<le> n \<and> n \<le> 90) \<or> (192 \<le> n \<and> n \<le> 222 \<and> n \<noteq> 215)
         then char_of (n + 32) else c)"

definition lower :: "string \<Rightarrow> string" where
  "lower s = map lower_char s"

text \<open>\<^verbatim>\<open>s.split()\<close>: the maximal runs of non-whitespace characters, in order.\<close>

fun split_acc :: "string \<Rightarrow> string \<Rightarrow> string list" where
  "split_acc cur [] = (if cur = [] then [] else [cur])"
| "split_acc cur (c # cs) =
     (if is_space c then (if cur = [] then split_acc [] cs else cur # split_acc [] cs)
      else split_acc (cur @ [c]) cs)"

definition split_ws :: "string \<Rightarrow> string list" where
  "split_ws s = split_acc [] s"

text \<open>\<^verbatim>\<open>s.strip()\<close>: leading and trailing whitespace removed.\<close>

definition strip :: "string \<Rightarrow> string" where
  "strip s = rev (dropWhile is_space (rev (dropWhile is_space s)))"

text \<open>\<^verbatim>\<open>sep.join(xs)\<close>.\<close>

fun join :: "string \<Rightarrow> string list \<Rightarrow> string" where
  "join sep [] = []"
| "join sep [x] = x"
| "join sep (x # y # ys) = x @ sep @ join sep (y # ys)"

text \<open>\<^verbatim>\<open>w in t\<close> on strings: \<^verbatim>\<open>w\<close> occurs as a contiguous substring of \<^verbatim>\<open>t\<close>.\<close>

fun starts_with :: "string \<Rightarrow> string \<Rightarrow> bool" where
  "starts_with t [] = True"
| "starts_with [] (c # w) = False"
| "starts_with (d # t) (c # w) = (d = c \<and> starts_with t w)"

fun str_contains :: "string \<Rightarrow> string \<Rightarrow> bool" where
  "str_contains w [] = (w = [])"
| "str_contains w (d # t) = (starts_with (d # t) w \<or> str_contains w t)"

section \<open>Sentence de-duplication\<close>

text \<open>
  \<^verbatim>\<open>re.split(r'(?<=[.!?])\s+', text)\<close>: a separator is a maximal whitespace run that
  directly follows one of \<^verbatim>\<open>.\<close>, \<^verbatim>\<open>!\<close>, \<^verbatim>\<open>?\<close>; the pieces between separators are
  returned, the last one also when it is empty.
\<close>

definition is_end :: "char \<Rightarrow> bool" where
  "is_end c = (c = CHR ''.'' \<or> c = CHR ''!'' \<or> c = CHR ''?'')"

function re_split :: "string \<Rightarrow> string \<Rightarrow> string list" where
  "re_split cur [] = [cur]"
| "re_split cur (c # cs) =
     (if is_end c \<and> cs \<noteq> [] \<and> is_space (hd cs)
      then (cur @ [c]) # re_split [] (dropWhile is_space cs)
      else re_split (cur @ [c]) cs)"
  by pat_completeness auto
termination
  by (relation "measure (\<lambda>(cur, s). length s)")
     (auto simp: less_Suc_eq_le length_dropWhile_le)

text \<open>The loop over \<^verbatim>\<open>sentences\<close>, with \<^verbatim>\<open>unique_sentences\<close> as the accumulator.\<close>

fun dedup_loop :: "string list \<Rightarrow> string list \<Rightarrow> string list" where
  "dedup_loop unique_sentences [] = unique_sentences"
| "dedup_loop unique_sentences (sentence # rest) =
     (if unique_sentences = [] \<or> sentence \<noteq> last unique_sentences
      then dedup_loop (unique_sentences @ [sentence]) rest
      else dedup_loop unique_sentences rest)"

definition remove_duplicate_sentences :: "string \<Rightarrow> string" where
  "remove_duplicate_sentences text = join '' '' (dedup_loop [] (re_split [] text))"

text \<open>
  Two notions to say what the split does. A string has a boundary when one of \<^verbatim>\<open>.\<close>,
  \<^verbatim>\<open>!\<close>, \<^verbatim>\<open>?\<close> in it is directly followed by whitespace. \<open>weave\<close> puts the pieces back
  together with the given separators between them.
\<close>

fun has_boundary :: "string \<Rightarrow> bool" where
  "has_boundary (c # d # cs) = ((is_end c \<and> is_space d) \<or> has_boundary (d # cs))"
| "has_boundary cs = False"

fun weave :: "string list \<Rightarrow> string list \<Rightarrow> string" where
  "weave (p # ps) (s # ss) = p @ s @ weave ps ss"
| "weave ps ss = concat ps"

section \<open>Relevance filter\<close>

definition keyword_match :: "string \<Rightarrow> string \<Rightarrow> bool" where
  "keyword_match query text =
     (let words = filter (\<lambda>w. 3 < length w) (split_ws (lower query)) in
      if words = [] then str_contains (lower query) (lower text)
      else
        (let count = length (filter (\<lambda>w. str_contains w (lower text)) words)
         in max 1 (length words div 2) \<le> count))"

section \<open>Curated URL list\<close>

text \<open>
  \<^verbatim>\<open>file.readlines()\<close> on a text file: the content cut after every newline character,
  each line keeping its newline; a last line without newline is kept when it is not empty.
\<close>

fun readlines_acc :: "string \<Rightarrow> string \<Rightarrow> string list" where
  "readlines_acc cur [] = (if cur = [] then [] else [cur])"
| "readlines_acc cur (c # cs) =
     (if c = CHR 0x0A then (cur @ [c]) # readlines_acc [] cs
      else readlines_acc (cur @ [c]) cs)"

definition readlines :: "string \<Rightarrow> string list" where
  "readlines s = readlines_acc [] s"

text \<open>
  The file \<^verbatim>\<open>preferred_urls.txt\<close> is \<open>None\<close> when it does not exist, and its content
  otherwise.
\<close>

definition get_preferred_urls :: "string option \<Rightarrow> string list" where
  "get_preferred_urls file =
     (case file of None \<Rightarrow> [] | Some content \<Rightarrow> map strip (readlines content))"

text \<open>
  The sibling reader of the same file in \<^verbatim>\<open>chat_server_app/views.py\<close>, which keeps
  \<^verbatim>\<open>line.strip()\<close> only \<^verbatim>\<open>if line.strip()\<close>.
\<close>

definition views_get_preferred_urls :: "string option \<Rightarrow> string list" where
  "views_get_preferred_urls file =
     (case file of None \<Rightarrow> []
      | Some content \<Rightarrow> map strip (filter (\<lambda>line. strip line \<noteq> []) (readlines content)))"

section \<open>Content extractor\<close>

text \<open>
  What the code asks of the parsed document (\<^verbatim>\<open>BeautifulSoup\<close>), after the non-content
  elements have been removed:
  \<^item> \<open>title_string\<close>: \<^verbatim>\<open>soup.title.string\<close>, \<open>None\<close> when there is no title or it has no
    single string;
  \<^item> \<open>meta_description\<close>: the \<^verbatim>\<open>content\<close> attribute of the description meta tag;
  \<^item> \<open>content_elements\<close>: one entry per class-marked container found by the first
    \<^verbatim>\<open>find_all\<close>, holding the name and \<^verbatim>\<open>get_text(strip=True)\<close> of every heading and
    paragraph inside it, in document order;
  \<^item> \<open>heading_paragraphs\<close>: the same for every heading and paragraph of the document;
  \<^item> \<open>page_strings\<close>: the text strings of the document, in document order.
\<close>

record page =
  title_string :: "string option"
  meta_description :: "string option"
  content_elements :: "(string \<times> string) list list"
  heading_paragraphs :: "(string \<times> string) list"
  page_strings :: "string list"

text \<open>
  \<^verbatim>\<open>get_text(separator=sep, strip=True)\<close>: every string is stripped, the empty ones are
  dropped, the rest is joined with the separator.
\<close>

definition get_text_strip :: "string \<Rightarrow> string list \<Rightarrow> string" where
  "get_text_strip sep ss = join sep (filter (\<lambda>s. s \<noteq> []) (map strip ss))"

text \<open>The result dictionary of \<^verbatim>\<open>data_scrape\<close>; an absent key is \<open>None\<close>.\<close>

record info =
  info_url :: string
  info_status :: string
  info_error :: "string option"
  info_metadata :: "(string \<rightharpoonup> string) option"
  info_content :: "string option"

text \<open>
  The outcome of \<^verbatim>\<open>requests.get\<close> followed by parsing: a response with its status code
  and either the parsed page or the message of an exception raised while the page is
  processed; \<^verbatim>\<open>requests.exceptions.Timeout\<close>; or any other exception, with its message.
\<close>

datatype fetch_outcome =
    Response int "string + page"
  | Timeout
  | Failure string

function str_of_nat :: "nat \<Rightarrow> string" where
  "str_of_nat n =
     (if n < 10 then [char_of (48 + n)]
      else str_of_nat (n div 10) @ [char_of (48 + n mod 10)])"
  by pat_completeness auto
termination
  by (relation "measure (\<lambda>n. n)") auto

definition str_of_int :: "int \<Rightarrow> string" where
  "str_of_int i = (if i < 0 then ''-'' @ str_of_nat (nat (- i)) else str_of_nat (nat i))"

definition error_info :: "string \<Rightarrow> string \<Rightarrow> info" where
  "error_info url reason =
     \<lparr>info_url = url, info_status = ''error'', info_error = Some reason,
      info_metadata = None, info_content = None\<rparr>"

definition extract_metadata :: "page \<Rightarrow> (string \<rightharpoonup> string)" where
  "extract_metadata pg =
     (let m0 = Map.empty;
          m1 = (case title_string pg of
                  Some s \<Rightarrow> if s \<noteq> [] then m0(''title'' \<mapsto> strip s) else m0
                | None \<Rightarrow> m0)
      in (case meta_description pg of
            Some d \<Rightarrow> if d \<noteq> [] then m1(''description'' \<mapsto> strip d) else m1
          | None \<Rightarrow> m1))"

definition is_heading :: "string \<Rightarrow> bool" where
  "is_heading name = starts_with name ''h''"

definition append_tag :: "string \<Rightarrow> string \<Rightarrow> string \<Rightarrow> string" where
  "append_tag main_content name text =
     main_content @ (if is_heading name then text @ [CHR 0x0A] else text @ '' '')"

fun scan_container :: "string \<Rightarrow> (string \<times> string) list \<Rightarrow> string" where
  "scan_container main_content [] = main_content"
| "scan_container main_content ((name, text) # tags) =
     scan_container (if text \<noteq> [] then append_tag main_content name text else main_content) tags"

fun scan_containers :: "string \<Rightarrow> (string \<times> string) list list \<Rightarrow> string" where
  "scan_containers main_content [] = main_content"
| "scan_containers main_content (element # elements) =
     scan_containers (scan_container main_content element) elements"

fun scan_document :: "string \<Rightarrow> (string \<times> string) list \<Rightarrow> string" where
  "scan_document main_content [] = main_content"
| "scan_document main_content ((name, text) # tags) =
     scan_document
       (if text \<noteq> [] \<and> (is_heading name \<or> 50 < length text)
        then append_tag main_content name text else main_content) tags"

definition normalized_text :: "page \<Rightarrow> string" where
  "normalized_text pg = join '' '' (split_ws (get_text_strip '' '' (page_strings pg)))"

text \<open>
  Lines 83-100 of \<^verbatim>\<open>data_scrape\<close>: the value of \<^verbatim>\<open>main_content\<close> after the scan of the
  class-marked containers and, when that gave nothing, of all headings and paragraphs.
\<close>

definition accumulated_text :: "page \<Rightarrow> string" where
  "accumulated_text pg =
     (let step1 = (if content_elements pg \<noteq> [] then scan_containers [] (content_elements pg)
                   else [])
      in if step1 = [] then scan_document step1 (heading_paragraphs pg) else step1)"

text \<open>Lines 102-105: the final fallback to the text of the whole page.\<close>

definition extract_main_content :: "page \<Rightarrow> string" where
  "extract_main_content pg =
     (let main_content = accumulated_text pg
      in if main_content = [] \<or> length main_content < 200 then normalized_text pg
         else main_content)"

text \<open>
  \<^verbatim>\<open>data_scrape(url, timeout, rate_limit)\<close>, given the outcome of the fetch. A negative
  \<^verbatim>\<open>rate_limit\<close> makes \<^verbatim>\<open>time.sleep\<close> raise \<^verbatim>\<open>ValueError\<close> before any request is sent;
  like every other exception it is caught by the last handler.
\<close>

definition data_scrape :: "(string \<Rightarrow> int \<Rightarrow> fetch_outcome) \<Rightarrow> string \<Rightarrow> int \<Rightarrow> int \<Rightarrow> info" where
  "data_scrape get url timeout rate_limit =
     (if rate_limit < 0 then error_info url ''sleep length must be non-negative''
      else
        (case get url timeout of
           Response status_code parsed \<Rightarrow>
             if status_code \<noteq> 200 then error_info url (''Status code '' @ str_of_int status_code)
             else
               (case parsed of
                  Inl e \<Rightarrow> error_info url e
                | Inr soup \<Rightarrow>
                    \<lparr>info_url = url, info_status = ''success'', info_error = None,
                     info_metadata = Some (extract_metadata soup),
                     info_content = Some (remove_duplicate_sentences (extract_main_content soup))\<rparr>)
         | Timeout \<Rightarrow> error_info url (''Timeout after '' @ str_of_int timeout @ '' seconds'')
         | Failure e \<Rightarrow> error_info url e))"

section \<open>Source orchestrator and conversation transcript\<close>

record message =
  msg_role :: string
  msg_content :: string

datatype backend = OpenAI | Deepseek

text \<open>
  The calls that leave the process are recorded in a log: a page fetch, a call of the
  general web search, a chat completion.
\<close>

datatype event = Fetch string | Search string | Chat backend string

fun is_search :: "event \<Rightarrow> bool" where
  "is_search (Search q) = True"
| "is_search e = False"

definition search_calls :: "event list \<Rightarrow> nat" where
  "search_calls evs = length (filter is_search evs)"

text \<open>The outcome of \<^verbatim>\<open>cdm_rag.get_rag_response\<close>: a response or a raised exception.\<close>

datatype rag_outcome = Returned string | FileNotFoundError string | OtherError string

text \<open>
  The collaborators; each may answer differently depending on the calls made so far.
  The web search yields its URLs and then either stops or raises; a chat completion
  returns the answer (\<open>Inr\<close>) or raises (\<open>Inl\<close>).
\<close>

record env =
  preferred_urls_txt :: "event list \<Rightarrow> string option"
  http_get :: "event list \<Rightarrow> string \<Rightarrow> int \<Rightarrow> fetch_outcome"
  google_search :: "event list \<Rightarrow> string \<Rightarrow> string list \<times> string option"
  chat_completion :: "event list \<Rightarrow> backend \<Rightarrow> string \<Rightarrow> message list \<Rightarrow> string + string"
  get_rag_response :: "event list \<Rightarrow> string \<Rightarrow> string \<Rightarrow> rag_outcome"

text \<open>
  Message lists are mutable objects shared by reference: the heap holds them, a reference
  is an index into it, and \<^verbatim>\<open>list.copy()\<close> allocates a new cell.
\<close>

record state =
  heap :: "message list list"
  used_urls :: "string set"
  log :: "event list"

text \<open>\<^verbatim>\<open>data_scrape(url)\<close> with its defaults, recording the fetch.\<close>

definition scrape :: "env \<Rightarrow> string \<Rightarrow> event list \<Rightarrow> info \<times> event list" where
  "scrape e url evs = (data_scrape (http_get e evs) url 10 1, evs @ [Fetch url])"

text \<open>\<^verbatim>\<open>info.get('status') == 'success' and keyword_match(query, info.get('content', ''))\<close>\<close>

definition relevant :: "string \<Rightarrow> info \<Rightarrow> bool" where
  "relevant query i =
     (info_status i = ''success'' \<and>
      keyword_match query (case info_content i of None \<Rightarrow> [] | Some c \<Rightarrow> c))"

fun preferred_loop :: "env \<Rightarrow> string \<Rightarrow> string list \<Rightarrow> info list \<Rightarrow> event list \<Rightarrow> info list \<times> event list" where
  "preferred_loop e query [] info_list evs = (info_list, evs)"
| "preferred_loop e query (url # urls) info_list evs =
     (let (i, evs') = scrape e url evs
      in preferred_loop e query urls (if relevant query i then info_list @ [i] else info_list) evs')"

definition search_preferred_urls :: "env \<Rightarrow> string \<Rightarrow> event list \<Rightarrow> info list \<times> event list" where
  "search_preferred_urls e query evs =
     preferred_loop e query (get_preferred_urls (preferred_urls_txt e evs)) [] evs"

definition metadata_get :: "info \<Rightarrow> string \<Rightarrow> string" where
  "metadata_get i k =
     (case info_metadata i of None \<Rightarrow> []
      | Some m \<Rightarrow> (case m k of None \<Rightarrow> [] | Some v \<Rightarrow> v))"

definition context_message :: "info \<Rightarrow> message" where
  "context_message i =
     \<lparr>msg_role = ''user'',
      msg_content =
        ''URL: '' @ info_url i @ [CHR 0x0A] @
        ''Title: '' @ metadata_get i ''title'' @ [CHR 0x0A] @
        ''Description: '' @ metadata_get i ''description'' @ [CHR 0x0A] @
        ''Content: '' @ (case info_content i of None \<Rightarrow> [] | Some c \<Rightarrow> c)\<rparr>"

definition final_message :: "string \<Rightarrow> message" where
  "final_message user_input =
     \<lparr>msg_role = ''user'',
      msg_content =
        ''You are to use provided context as fact and not '' @
        ''your own knowledge as the context provided is the '' @
        ''most up-to-date information.'' @ [CHR 0x0A, CHR 0x0A] @ user_input\<rparr>"

text \<open>The body shared by both loops of \<^verbatim>\<open>create_advanced_response\<close>.\<close>

definition add_context :: "string \<Rightarrow> info \<Rightarrow> message list \<times> string set \<Rightarrow> message list \<times> string set" where
  "add_context query i acc =
     (case acc of (context_messages, used) \<Rightarrow>
        if relevant query i then (context_messages @ [context_message i], insert (info_url i) used)
        else (context_messages, used))"

fun context_loop :: "string \<Rightarrow> info list \<Rightarrow> message list \<times> string set \<Rightarrow> message list \<times> string set" where
  "context_loop query [] acc = acc"
| "context_loop query (i # is) acc = context_loop query is (add_context query i acc)"

fun fallback_loop :: "env \<Rightarrow> string \<Rightarrow> string list \<Rightarrow> message list \<times> string set \<Rightarrow> event list
    \<Rightarrow> (message list \<times> string set) \<times> event list" where
  "fallback_loop e query [] acc evs = (acc, evs)"
| "fallback_loop e query (url # urls) acc evs =
     (let (i, evs') = scrape e url evs
      in fallback_loop e query urls (add_context query i acc) evs')"

text \<open>Steps 3 and 4: the appends to the caller's list and the completion.\<close>

definition complete_advanced :: "env \<Rightarrow> string \<Rightarrow> nat \<Rightarrow> string \<Rightarrow> message list \<Rightarrow> state \<Rightarrow> (string + string) \<times> state" where
  "complete_advanced e user_input message_list model context_messages st =
     (let msgs = heap st ! message_list @ context_messages @ [final_message user_input]
      in (chat_completion e (log st) OpenAI model msgs,
          st\<lparr>heap := (heap st)[message_list := msgs], log := log st @ [Chat OpenAI model]\<rparr>))"

text \<open>
  \<^verbatim>\<open>create_advanced_response\<close>; \<open>message_list\<close> is the reference it was given. The result
  is \<open>Inr\<close> the answer, or \<open>Inl\<close> the message of the exception that leaves the function.
\<close>

definition create_advanced_response :: "env \<Rightarrow> string \<Rightarrow> nat \<Rightarrow> string \<Rightarrow> state \<Rightarrow> (string + string) \<times> state" where
  "create_advanced_response e user_input message_list model st =
     (let (preferred_info_list, evs1) = search_preferred_urls e user_input (log st);
          (context1, used1) = context_loop user_input preferred_info_list ([], {})
      in if \<not> list_ex (relevant user_input) preferred_info_list
         then
           (let (urls, raised) = google_search e evs1 user_input;
                ((context2, used2), evs2) =
                   fallback_loop e user_input urls (context1, used1) (evs1 @ [Search user_input])
            in case raised of
                 Some err \<Rightarrow> (Inl err, st\<lparr>used_urls := used2, log := evs2\<rparr>)
               | None \<Rightarrow>
                   complete_advanced e user_input message_list model context2
                     (st\<lparr>used_urls := used2, log := evs2\<rparr>))
         else complete_advanced e user_input message_list model context1
                (st\<lparr>used_urls := used1, log := evs1\<rparr>))"

definition create_response :: "env \<Rightarrow> string \<Rightarrow> nat \<Rightarrow> string \<Rightarrow> state \<Rightarrow> (string + string) \<times> state" where
  "create_response e user_input message_list model st =
     (let filtered_message_list =
            filter (\<lambda>msg. msg_role msg \<noteq> ''system'') (heap st ! message_list)
            @ [final_message user_input]
      in if model = ''deepseek-reasoner''
         then (chat_completion e (log st) Deepseek ''deepseek-reasoner'' filtered_message_list,
               st\<lparr>log := log st @ [Chat Deepseek ''deepseek-reasoner'']\<rparr>)
         else (chat_completion e (log st) OpenAI model filtered_message_list,
               st\<lparr>log := log st @ [Chat OpenAI model]\<rparr>))"

definition create_rag_response :: "env \<Rightarrow> string \<Rightarrow> nat \<Rightarrow> string \<Rightarrow> state \<Rightarrow> (string + string) \<times> state" where
  "create_rag_response e user_input message_list model st =
     (case get_rag_response e (log st) user_input model of
        Returned response \<Rightarrow>
          (Inr response,
           st\<lparr>heap := (heap st)[message_list := heap st ! message_list
                 @ [\<lparr>msg_role = ''user'', msg_content = response\<rparr>]]\<rparr>)
      | FileNotFoundError error_message \<Rightarrow>
          (Inr error_message,
           st\<lparr>heap := (heap st)[message_list := heap st ! message_list
                 @ [\<lparr>msg_role = ''user'', msg_content = error_message\<rparr>]]\<rparr>)
      | OtherError err \<Rightarrow> (Inl err, st))"

text \<open>\<^verbatim>\<open>message_list.copy()\<close>: a new cell with the same elements; its reference is returned.\<close>

definition list_copy :: "nat \<Rightarrow> state \<Rightarrow> nat \<times> state" where
  "list_copy r st = (length (heap st), st\<lparr>heap := heap st @ [heap st ! r]\<rparr>)"

fun models_loop :: "env \<Rightarrow> string \<Rightarrow> nat \<Rightarrow> string list \<Rightarrow> (string \<rightharpoonup> string) \<Rightarrow> state
    \<Rightarrow> (string + (string \<rightharpoonup> string)) \<times> state" where
  "models_loop e question message_list [] responses st = (Inr responses, st)"
| "models_loop e question message_list (model # models) responses st =
     (let (copy, st1) = list_copy message_list st;
          (r, st2) = (if str_contains ''advanced'' model
                      then create_advanced_response e question copy model st1
                      else create_response e question copy model st1)
      in case r of
           Inl err \<Rightarrow> (Inl err, st2)
         | Inr answer \<Rightarrow> models_loop e question message_list models (responses(model \<mapsto> answer)) st2)"

definition handle_multiple_models :: "env \<Rightarrow> string \<Rightarrow> nat \<Rightarrow> string list \<Rightarrow> state
    \<Rightarrow> (string + (string \<rightharpoonup> string)) \<times> state" where
  "handle_multiple_models e question message_list models st =
     models_loop e question message_list models Map.empty st"

section \<open>Ingestion: chunk store and vector index\<close>

text \<open>
  An uploaded item; a key that is absent (or \<^verbatim>\<open>None\<close>) is \<open>None\<close>. The vector components are
  of an arbitrary type \<open>'f\<close>, standing for 32-bit floats.
\<close>

record file_item =
  item_name :: "string option"
  item_content :: "string option"

record 'f chunk =
  chunk_text :: string
  chunk_file_path :: string
  chunk_embedding :: "'f list"

text \<open>A flat index: its dimension and the rows added; \<^verbatim>\<open>ntotal\<close> is the number of rows.\<close>

record 'f faiss_index =
  index_d :: nat
  index_rows :: "'f list list"

definition ntotal :: "'f faiss_index \<Rightarrow> nat" where
  "ntotal ix = length (index_rows ix)"

text \<open>The two persisted files; \<open>None\<close> when the file does not exist.\<close>

record 'f disk =
  embeddings_pkl :: "'f chunk list option"
  faiss_index_idx :: "'f faiss_index option"

datatype body = Message string | Error string

text \<open>Python truthiness of \<^verbatim>\<open>item.get(key)\<close>: present and not empty.\<close>

definition truthy :: "string option \<Rightarrow> bool" where
  "truthy v = (case v of None \<Rightarrow> False | Some s \<Rightarrow> s \<noteq> [])"

definition survives :: "file_item \<Rightarrow> bool" where
  "survives file_item = (truthy (item_name file_item) \<and> truthy (item_content file_item))"

text \<open>
  The loop of \<^verbatim>\<open>upload_folder\<close>. \<open>encode\<close> is \<^verbatim>\<open>embed_file_content\<close>: the vector, or
  \<open>Inl\<close> the message of the exception the model raises; the exception ends the loop.
\<close>

fun embed_loop :: "(string \<Rightarrow> string + 'f list) \<Rightarrow> file_item list \<Rightarrow> 'f chunk list
    \<Rightarrow> string + 'f chunk list" where
  "embed_loop encode [] chunks_list = Inr chunks_list"
| "embed_loop encode (file_item # files) chunks_list =
     (if survives file_item then
        (case encode (the (item_content file_item)) of
           Inl err \<Rightarrow> Inl err
         | Inr embedding_vector \<Rightarrow>
             embed_loop encode files
               (chunks_list @
                [\<lparr>chunk_text = the (item_content file_item),
                  chunk_file_path = the (item_name file_item),
                  chunk_embedding = embedding_vector\<rparr>]))
      else embed_loop encode files chunks_list)"

definition store_embeddings :: "'f chunk list \<Rightarrow> 'f disk \<Rightarrow> 'f disk" where
  "store_embeddings chunks_list dk = dk\<lparr>embeddings_pkl := Some chunks_list\<rparr>"

text \<open>
  \<^verbatim>\<open>create_faiss_index\<close>: nothing is done for an empty list; \<^verbatim>\<open>np.array\<close> raises when the
  embeddings do not all have the length of the first one; otherwise all rows are added and
  the index is written.
\<close>

definition create_faiss_index :: "'f chunk list \<Rightarrow> 'f disk \<Rightarrow> string + 'f disk" where
  "create_faiss_index chunks dk =
     (case chunks of
        [] \<Rightarrow> Inr dk
      | first # _ \<Rightarrow>
          (let dimension = length (chunk_embedding first);
               embeddings_np = map chunk_embedding chunks
           in if list_ex (\<lambda>row. length row \<noteq> dimension) embeddings_np
              then Inl ''inhomogeneous shape''
              else Inr (dk\<lparr>faiss_index_idx :=
                          Some \<lparr>index_d = dimension, index_rows = embeddings_np\<rparr>\<rparr>)))"

text \<open>
  \<^verbatim>\<open>upload_folder(data)\<close>; \<open>files\<close> is \<^verbatim>\<open>data.get('filePaths', [])\<close>. The result is the
  response body, the HTTP status and the disk afterwards.
\<close>

definition upload_folder :: "(string \<Rightarrow> string + 'f list) \<Rightarrow> file_item list \<Rightarrow> 'f disk
    \<Rightarrow> (body \<times> nat) \<times> 'f disk" where
  "upload_folder encode files dk =
     (case embed_loop encode files [] of
        Inl err \<Rightarrow> ((Error (''Server error processing files: '' @ err), 500), dk)
      | Inr chunks_list \<Rightarrow>
          if chunks_list = []
          then ((Message ''No valid files processed. Nothing to embed.'', 200), dk)
          else
            (let dk1 = store_embeddings chunks_list dk
             in case create_faiss_index chunks_list dk1 of
                  Inl err \<Rightarrow> ((Error (''Server error processing files: '' @ err), 500), dk1)
                | Inr dk2 \<Rightarrow>
                    ((Message ''Files processed, local embeddings stored, and FAISS index created.'',
                      200), dk2)))"

section \<open>Concrete inputs\<close>

text \<open>
  The page \<^verbatim>\<open><title>Rates</title>\<close>, a newline, \<^verbatim>\<open><p>Short.  Short.</p>\<close>, and the
  page \<^verbatim>\<open><p>Hi. Hi.</p>\<close>.
\<close>

definition example_page :: page where
  "example_page =
     \<lparr>title_string = Some ''Rates'', meta_description = None,
      content_elements = [], heading_paragraphs = [(''p'', ''Short.  Short.'')],
      page_strings = [''Rates'', [CHR 0x0A], ''Short.  Short.'']\<rparr>"

definition dup_page :: page where
  "dup_page =
     \<lparr>title_string = None, meta_description = None,
      content_elements = [], heading_paragraphs = [(''p'', ''Hi. Hi.'')],
      page_strings = [''Hi. Hi.'']\<rparr>"

definition example_get :: "string \<Rightarrow> int \<Rightarrow> fetch_outcome" where
  "example_get u t =
     (if u = ''http://ok'' then Response 200 (Inr example_page)
      else if u = ''http://dup'' then Response 200 (Inr dup_page)
      else if u = ''http://broken'' then Response 200 (Inl ''recursion depth exceeded'')
      else if u = ''http://nocontent'' then Response 204 (Inr example_page)
      else if u = ''http://gone'' then Response 404 (Inr example_page)
      else if u = ''http://slow'' then Timeout
      else Failure ''connection refused'')"

definition example_encode :: "string \<Rightarrow> string + nat list" where
  "example_encode s = (if s = ''bad'' then Inl ''model failure'' else Inr [length s, 1])"

definition old_disk :: "nat disk" where
  "old_disk =
     \<lparr>embeddings_pkl = Some [\<lparr>chunk_text = ''old'', chunk_file_path = ''old.txt'', chunk_embedding = [3, 1]\<rparr>],
      faiss_index_idx = Some \<lparr>index_d = 2, index_rows = [[3, 1]]\<rparr>\<rparr>"

definition empty_batch :: "file_item list" where
  "empty_batch =
     [\<lparr>item_name = Some ''a.txt'', item_content = None\<rparr>,
      \<lparr>item_name = None, item_content = Some ''alpha''\<rparr>,
      \<lparr>item_name = Some ''c.txt'', item_content = Some []\<rparr>]"

definition good_batch :: "file_item list" where
  "good_batch =
     [\<lparr>item_name = Some ''a.txt'', item_content = Some ''alpha''\<rparr>,
      \<lparr>item_name = Some ''skipped.txt'', item_content = None\<rparr>,
      \<lparr>item_name = Some ''b.txt'', item_content = Some ''beta''\<rparr>]"

definition bad_batch :: "file_item list" where
  "bad_batch =
     [\<lparr>item_name = Some ''a.txt'', item_content = Some ''alpha''\<rparr>,
      \<lparr>item_name = Some ''b.txt'', item_content = Some ''bad''\<rparr>]"

definition example_env :: env where
  "example_env =
     \<lparr>preferred_urls_txt = (\<lambda>evs. Some (''http://ok'' @ [CHR 0x0A])),
      http_get = (\<lambda>evs. example_get),
      google_search = (\<lambda>evs q. ([''http://down''], None)),
      chat_completion = (\<lambda>evs b m msgs. Inr ''answer''),
      get_rag_response = (\<lambda>evs q m. Returned ''rag answer'')\<rparr>"

definition example_state :: state where
  "example_state =
     \<lparr>heap = [[\<lparr>msg_role = ''system'', msg_content = ''You are a helpful assistant.''\<rparr>]],
      used_urls = {}, log = []\<rparr>"

section \<open>Properties of the string primitives\<close>

lemma starts_with_prefix: "starts_with t w = prefix w t"
  by (induction t w rule: starts_with.induct) auto

lemma str_contains_sublist: "str_contains w t = sublist w t"
  by (induction t) (auto simp: starts_with_prefix sublist_Cons_right)

lemma is_space_lower: "is_space (lower_char c) = is_space c"
  unfolding is_space_def lower_char_def Let_def by auto

lemma split_acc_lower:
  "split_acc (map lower_char cur) (map lower_char s) = map (map lower_char) (split_acc cur s)"
proof (induction s arbitrary: cur)
  case Nil
  show ?case by simp
next
  case (Cons c s)
  show ?case
    using Cons.IH [of "[]"] Cons.IH [of "cur @ [c]"]
    by (simp add: is_space_lower)
qed

lemma split_ws_lower: "split_ws (lower q) = map lower (split_ws q)"
  using split_acc_lower [of "[]" q] by (simp add: split_ws_def lower_def)

section \<open>Sentence de-duplication\<close>

lemma dedup_loop_snoc: "dedup_loop (acc @ [a]) xs = acc @ remdups_adj (a # xs)"
proof (induction xs arbitrary: acc a)
  case Nil
  show ?case by simp
next
  case (Cons x xs)
  show ?case
  proof (cases "x = a")
    case True
    then show ?thesis using Cons.IH [of acc a] by simp
  next
    case False
    then show ?thesis using Cons.IH [of "acc @ [a]" x] by simp
  qed
qed

lemma dedup_loop_Nil: "dedup_loop [] xs = remdups_adj xs"
  by (cases xs) (simp_all add: dedup_loop_snoc [of "[]", simplified])

lemma is_end_not_space: "is_end c \<Longrightarrow> \<not> is_space c"
  by (auto simp: is_end_def is_space_def)

lemma has_boundary_snoc:
  "has_boundary (xs @ [c]) = (has_boundary xs \<or> (xs \<noteq> [] \<and> is_end (last xs) \<and> is_space c))"
  by (induction xs rule: has_boundary.induct) auto

lemma re_split_not_Nil: "re_split cur s \<noteq> []"
  by (induction cur s rule: re_split.induct) auto

lemma re_split_butlast_end:
  "list_all (\<lambda>p. p \<noteq> [] \<and> is_end (last p)) (butlast (re_split cur s))"
  by (induction cur s rule: re_split.induct) (auto simp: re_split_not_Nil)

lemma re_split_no_boundary:
  "\<not> has_boundary cur \<Longrightarrow> (cur \<noteq> [] \<and> is_end (last cur) \<longrightarrow> s = [] \<or> \<not> is_space (hd s))
   \<Longrightarrow> list_all (\<lambda>p. \<not> has_boundary p) (re_split cur s)"
proof (induction cur s rule: re_split.induct)
  case (1 cur)
  then show ?case by simp
next
  case (2 cur c cs)
  show ?case
  proof (cases "is_end c \<and> cs \<noteq> [] \<and> is_space (hd cs)")
    case True
    have eq: "re_split cur (c # cs) = (cur @ [c]) # re_split [] (dropWhile is_space cs)"
      by (simp only: re_split.simps(2) if_P [OF True])
    from True have "\<not> is_space c" by (simp add: is_end_not_space)
    with "2.prems"(1) have nb: "\<not> has_boundary (cur @ [c])"
      by (simp add: has_boundary_snoc)
    have "list_all (\<lambda>p. \<not> has_boundary p) (re_split [] (dropWhile is_space cs))"
      by (rule "2.IH"(1) [OF True]) simp_all
    with nb show ?thesis unfolding eq by simp
  next
    case False
    have eq: "re_split cur (c # cs) = re_split (cur @ [c]) cs"
      by (simp only: re_split.simps(2) if_not_P [OF False])
    have nb: "\<not> has_boundary (cur @ [c])"
      using "2.prems" by (auto simp: has_boundary_snoc)
    have inv: "cur @ [c] \<noteq> [] \<and> is_end (last (cur @ [c])) \<longrightarrow> cs = [] \<or> \<not> is_space (hd cs)"
      using False by auto
    from "2.IH"(2) [OF False nb inv] show ?thesis unfolding eq .
  qed
qed

lemma re_split_hd_start:
  "cur \<noteq> [] \<Longrightarrow> hd (re_split cur s) \<noteq> [] \<and> hd (hd (re_split cur s)) = hd cur"
  by (induction cur s rule: re_split.induct) auto

lemma re_split_tl_start:
  "list_all (\<lambda>p. p = [] \<or> \<not> is_space (hd p)) (tl (re_split cur s))"
proof (induction cur s rule: re_split.induct)
  case (1 cur)
  show ?case by simp
next
  case (2 cur c cs)
  show ?case
  proof (cases "is_end c \<and> cs \<noteq> [] \<and> is_space (hd cs)")
    case True
    have eq: "re_split cur (c # cs) = (cur @ [c]) # re_split [] (dropWhile is_space cs)"
      by (simp only: re_split.simps(2) if_P [OF True])
    define r where "r = dropWhile is_space cs"
    have hd_r: "hd (re_split [] r) = [] \<or> \<not> is_space (hd (hd (re_split [] r)))"
    proof (cases r)
      case Nil
      then show ?thesis by simp
    next
      case (Cons d ds)
      then have "dropWhile is_space cs \<noteq> []" by (simp add: r_def)
      then have "\<not> is_space (hd (dropWhile is_space cs))" by (rule hd_dropWhile)
      with Cons have nd: "\<not> is_space d" by (simp add: r_def)
      have "re_split [] (d # ds) = re_split [d] ds \<or> re_split [] (d # ds) = [d] # re_split [] (dropWhile is_space ds)"
        by simp
      moreover have "hd (hd (re_split [d] ds)) = d"
        using re_split_hd_start [of "[d]" ds] by simp
      ultimately have "hd (hd (re_split [] (d # ds))) = d" by auto
      with Cons nd show ?thesis by simp
    qed
    have "list_all (\<lambda>p. p = [] \<or> \<not> is_space (hd p)) (tl (re_split [] r))"
      unfolding r_def by (rule "2.IH"(1) [OF True])
    with hd_r have "list_all (\<lambda>p. p = [] \<or> \<not> is_space (hd p)) (re_split [] r)"
      using re_split_not_Nil [of "[]" r] by (cases "re_split [] r") auto
    then show ?thesis unfolding eq r_def by simp
  next
    case False
    have eq: "re_split cur (c # cs) = re_split (cur @ [c]) cs"
      by (simp only: re_split.simps(2) if_not_P [OF False])
    from "2.IH"(2) [OF False] show ?thesis unfolding eq .
  qed
qed

lemma re_split_weave:
  "\<exists>seps. length seps = length (re_split cur s) - 1
      \<and> list_all (\<lambda>sep. sep \<noteq> [] \<and> list_all is_space sep) seps
      \<and> weave (re_split cur s) seps = cur @ s"
proof (induction cur s rule: re_split.induct)
  case (1 cur)
  show ?case by (rule exI [of _ "[]"]) simp
next
  case (2 cur c cs)
  show ?case
  proof (cases "is_end c \<and> cs \<noteq> [] \<and> is_space (hd cs)")
    case True
    have eq: "re_split cur (c # cs) = (cur @ [c]) # re_split [] (dropWhile is_space cs)"
      by (simp only: re_split.simps(2) if_P [OF True])
    define r where "r = dropWhile is_space cs"
    define sep where "sep = takeWhile is_space cs"
    from "2.IH"(1) [OF True] obtain seps where seps:
      "length seps = length (re_split [] r) - 1"
      "list_all (\<lambda>sep. sep \<noteq> [] \<and> list_all is_space sep) seps"
      "weave (re_split [] r) seps = r" unfolding r_def by auto
    from True have ne: "sep \<noteq> []" unfolding sep_def by (cases cs) auto
    have sp: "list_all is_space sep"
      unfolding sep_def list_all_iff by (auto dest: set_takeWhileD)
    have cs: "sep @ r = cs" by (simp add: sep_def r_def)
    have len: "length (sep # seps) = length ((cur @ [c]) # re_split [] r) - 1"
      using seps(1) re_split_not_Nil [of "[]" r] by (cases "re_split [] r") simp_all
    have w: "weave ((cur @ [c]) # re_split [] r) (sep # seps) = cur @ c # cs"
      using seps(3) cs by simp
    have "length (sep # seps) = length ((cur @ [c]) # re_split [] r) - 1
      \<and> list_all (\<lambda>sep. sep \<noteq> [] \<and> list_all is_space sep) (sep # seps)
      \<and> weave ((cur @ [c]) # re_split [] r) (sep # seps) = cur @ c # cs"
      using len w ne sp seps(2) by simp
    then show ?thesis unfolding eq r_def by (rule exI)
  next
    case False
    have eq: "re_split cur (c # cs) = re_split (cur @ [c]) cs"
      by (simp only: re_split.simps(2) if_not_P [OF False])
    from "2.IH"(2) [OF False] show ?thesis unfolding eq by simp
  qed
qed

text \<open>
  C3. \<^verbatim>\<open>remove_duplicate_sentences\<close> splits the text at the whitespace that follows
  \<^verbatim>\<open>.\<close>, \<^verbatim>\<open>!\<close> or \<^verbatim>\<open>?\<close>, keeps one sentence of every run of equal neighbours (so a
  sentence that comes back later is kept, and the order is unchanged) and joins the rest
  with single spaces. The split is the one the claim describes: the text is its pieces with
  a non-empty run of whitespace between each two, every piece but the last ends with one
  of the three marks, no piece after the first starts with whitespace, and no piece has a
  boundary left in it. The text \<^verbatim>\<open>Buy now. Buy now. Sell later. Buy now.\<close> becomes
  \<^verbatim>\<open>Buy now. Sell later. Buy now.\<close>
\<close>

theorem remove_duplicate_sentences_collapses_runs:
  "remove_duplicate_sentences text = join '' '' (remdups_adj (re_split [] text))
   \<and> distinct_adj (dedup_loop [] (re_split [] text))
   \<and> (\<exists>seps. length seps = length (re_split [] text) - 1
         \<and> list_all (\<lambda>sep. sep \<noteq> [] \<and> list_all is_space sep) seps
         \<and> weave (re_split [] text) seps = text)
   \<and> list_all (\<lambda>p. p \<noteq> [] \<and> is_end (last p)) (butlast (re_split [] text))
   \<and> list_all (\<lambda>p. p = [] \<or> \<not> is_space (hd p)) (tl (re_split [] text))
   \<and> list_all (\<lambda>p. \<not> has_boundary p) (re_split [] text)
   \<and> remove_duplicate_sentences ''Buy now. Buy now. Sell later. Buy now.''
       = ''Buy now. Sell later. Buy now.''"
proof -
  have ex: "remove_duplicate_sentences ''Buy now. Buy now. Sell later. Buy now.''
       = ''Buy now. Sell later. Buy now.''"
    by (simp add: remove_duplicate_sentences_def is_end_def is_space_def)
  have w: "\<exists>seps. length seps = length (re_split [] text) - 1
         \<and> list_all (\<lambda>sep. sep \<noteq> [] \<and> list_all is_space sep) seps
         \<and> weave (re_split [] text) seps = text"
    using re_split_weave [of "[]" "text"] by simp
  have nb: "list_all (\<lambda>p. \<not> has_boundary p) (re_split [] text)"
    by (rule re_split_no_boundary) simp_all
  have d: "remove_duplicate_sentences text = join '' '' (remdups_adj (re_split [] text))
   \<and> distinct_adj (dedup_loop [] (re_split [] text))"
    by (simp add: remove_duplicate_sentences_def dedup_loop_Nil)
  from d w re_split_butlast_end [of "[]" "text"] re_split_tl_start [of "[]" "text"] nb ex
  show ?thesis by blast
qed

theorem remove_duplicate_sentences_collapses_runs_witness:
  "remove_duplicate_sentences (''x.'' @ [CHR 0xA0] @ ''x. y'') = ''x. y''
   \<and> remove_duplicate_sentences ''Go! Go!  Go! Stop? Go!'' = ''Go! Stop? Go!''"
proof -
  have 1: "join '' '' (remdups_adj (re_split [] (''x.'' @ [CHR 0xA0] @ ''x. y''))) = ''x. y''"
    by (simp add: is_end_def is_space_def)
  have 2: "join '' '' (remdups_adj (re_split [] ''Go! Go!  Go! Stop? Go!'')) = ''Go! Stop? Go!''"
    by (simp add: is_end_def is_space_def)
  note a = remove_duplicate_sentences_collapses_runs
             [of "''x.'' @ [CHR 0xA0] @ ''x. y''", THEN conjunct1]
  note b = remove_duplicate_sentences_collapses_runs
             [of "''Go! Go!  Go! Stop? Go!''", THEN conjunct1]
  show ?thesis unfolding a b 1 2 by (rule conjI) (rule refl)+
qed

section \<open>Relevance filter\<close>

lemma interest_words:
  "filter (\<lambda>w. 3 < length w) (split_ws (lower ''interest rate hike news''))
     = [''interest'', ''rate'', ''hike'', ''news'']"
  by (simp add: lower_def lower_char_def split_ws_def is_space_def)

text \<open>
  C1. \<^verbatim>\<open>keyword_match\<close> keeps the lower-cased whitespace-separated tokens of the query
  that are longer than 3 characters. With none kept, the answer is whether the lower-cased
  query is a substring of the lower-cased text; otherwise it is whether at least
  \<open>max 1 (n div 2)\<close> of the \<open>n\<close> kept tokens are substrings of the lower-cased text. For the
  query \<^verbatim>\<open>interest rate hike news\<close>, a text with \<^verbatim>\<open>interest\<close> and \<^verbatim>\<open>rate\<close> and neither
  of the other two tokens is accepted, a text with \<^verbatim>\<open>interest\<close> alone is rejected.
\<close>

theorem keyword_match_rule:
  "keyword_match query text =
     (let kept = filter (\<lambda>w. 3 < length w) (map lower (split_ws query)) in
      if kept = [] then sublist (lower query) (lower text)
      else max 1 (length kept div 2) \<le> length (filter (\<lambda>w. sublist w (lower text)) kept))
   \<and> (sublist ''interest'' (lower text) \<and> sublist ''rate'' (lower text)
        \<and> \<not> sublist ''hike'' (lower text) \<and> \<not> sublist ''news'' (lower text)
       \<longrightarrow> keyword_match ''interest rate hike news'' text)
   \<and> (sublist ''interest'' (lower text) \<and> \<not> sublist ''rate'' (lower text)
        \<and> \<not> sublist ''hike'' (lower text) \<and> \<not> sublist ''news'' (lower text)
       \<longrightarrow> \<not> keyword_match ''interest rate hike news'' text)"
proof (intro conjI impI)
  show "keyword_match query text =
     (let kept = filter (\<lambda>w. 3 < length w) (map lower (split_ws query)) in
      if kept = [] then sublist (lower query) (lower text)
      else max 1 (length kept div 2) \<le> length (filter (\<lambda>w. sublist w (lower text)) kept))"
    by (simp add: keyword_match_def str_contains_sublist split_ws_lower Let_def)
next
  assume "sublist ''interest'' (lower text) \<and> sublist ''rate'' (lower text)
        \<and> \<not> sublist ''hike'' (lower text) \<and> \<not> sublist ''news'' (lower text)"
  then show "keyword_match ''interest rate hike news'' text"
    unfolding keyword_match_def interest_words by (simp add: str_contains_sublist)
next
  assume "sublist ''interest'' (lower text) \<and> \<not> sublist ''rate'' (lower text)
        \<and> \<not> sublist ''hike'' (lower text) \<and> \<not> sublist ''news'' (lower text)"
  then show "\<not> keyword_match ''interest rate hike news'' text"
    unfolding keyword_match_def interest_words by (simp add: str_contains_sublist)
qed

theorem keyword_match_rule_witness:
  "keyword_match ''interest rate hike news'' ''The Interest and the rate''
   \<and> \<not> keyword_match ''interest rate hike news'' ''Interest only''
   \<and> keyword_match (''Interest'' @ [CHR 0xA0] @ ''rate'') ''interest''"
proof -
  have a: "lower ''The Interest and the rate'' = ''the interest and the rate''"
    by code_simp
  have b: "lower ''Interest only'' = ''interest only''"
    by code_simp
  have 1: "sublist ''interest'' (lower ''The Interest and the rate'')
        \<and> sublist ''rate'' (lower ''The Interest and the rate'')
        \<and> \<not> sublist ''hike'' (lower ''The Interest and the rate'')
        \<and> \<not> sublist ''news'' (lower ''The Interest and the rate'')"
    unfolding a by (simp add: str_contains_sublist [symmetric])
  have 2: "sublist ''interest'' (lower ''Interest only'')
        \<and> \<not> sublist ''rate'' (lower ''Interest only'')
        \<and> \<not> sublist ''hike'' (lower ''Interest only'')
        \<and> \<not> sublist ''news'' (lower ''Interest only'')"
    unfolding b by (simp add: str_contains_sublist [symmetric])
  from keyword_match_rule [of "''interest rate hike news''" "''The Interest and the rate''"] 1
  have c1: "keyword_match ''interest rate hike news'' ''The Interest and the rate''" by blast
  from keyword_match_rule [of "''interest rate hike news''" "''Interest only''"] 2
  have c2: "\<not> keyword_match ''interest rate hike news'' ''Interest only''" by blast
  have l: "lower (''Interest'' @ [CHR 0xA0] @ ''rate'') = ''interest'' @ [CHR 0xA0] @ ''rate''"
    by code_simp
  have t: "lower ''interest'' = ''interest''" by code_simp
  have k: "filter (\<lambda>w. 3 < length w) (map lower (split_ws (''Interest'' @ [CHR 0xA0] @ ''rate'')))
      = [''interest'', ''rate'']"
    unfolding split_ws_lower [symmetric] l by (simp add: split_ws_def is_space_def)
  have s: "sublist ''interest'' ''interest''" "\<not> sublist ''rate'' ''interest''"
    by (simp_all add: str_contains_sublist [symmetric])
  note r = keyword_match_rule
             [of "''Interest'' @ [CHR 0xA0] @ ''rate''" "''interest''", THEN conjunct1]
  have c3: "keyword_match (''Interest'' @ [CHR 0xA0] @ ''rate'') ''interest''"
    unfolding r k t by (simp add: s)
  from c1 c2 c3 show ?thesis by blast
qed

section \<open>Curated URL list\<close>

text \<open>
  C8. The reader of the curated list used by the orchestrator does not drop blank lines:
  for the file \<^verbatim>\<open>a\n\nb\n\<close> it returns the empty string as its second element, where
  the reader of the same file in the views module returns the two URLs only.
\<close>

theorem get_preferred_urls_keeps_blank_line:
  "get_preferred_urls (Some [CHR ''a'', CHR 0x0A, CHR 0x0A, CHR ''b'', CHR 0x0A]) = [''a'', [], ''b'']
   \<and> views_get_preferred_urls (Some [CHR ''a'', CHR 0x0A, CHR 0x0A, CHR ''b'', CHR 0x0A]) = [''a'', ''b'']"
  by (simp add: get_preferred_urls_def views_get_preferred_urls_def readlines_def strip_def is_space_def)

section \<open>Content extractor\<close>












lemma split_acc_spaces:
  "list_all is_space t \<Longrightarrow> split_acc cur t = (if cur = [] then [] else [cur])"
  by (induction t arbitrary: cur) auto

lemma split_acc_append_spaces:
  "list_all is_space t \<Longrightarrow> split_acc cur (a @ t) = split_acc cur a"
  by (induction a arbitrary: cur) (auto simp: split_acc_spaces)

lemma split_acc_space_append:
  "is_space sp \<Longrightarrow> split_acc cur (a @ sp # b) = split_acc cur a @ split_acc [] b"
  by (induction a arbitrary: cur) auto

lemma split_acc_dropWhile: "split_acc [] (dropWhile is_space s) = split_acc [] s"
  by (induction s) auto

lemma split_ws_strip: "split_ws (strip s) = split_ws s"
proof -
  define d where "d = dropWhile is_space s"
  define t where "t = rev (takeWhile is_space (rev d))"
  have sp: "list_all is_space t"
    unfolding t_def list_all_iff by (auto dest: set_takeWhileD)
  have "rev (dropWhile is_space (rev d)) @ t = d"
    unfolding t_def by (metis rev_append rev_rev_ident takeWhile_dropWhile_id)
  then have "split_acc [] d = split_acc [] (rev (dropWhile is_space (rev d)) @ t)" by simp
  also have "\<dots> = split_acc [] (rev (dropWhile is_space (rev d)))"
    using sp by (rule split_acc_append_spaces)
  finally have "split_acc [] (strip s) = split_acc [] d"
    by (simp add: strip_def d_def)
  then show ?thesis by (simp add: split_ws_def d_def split_acc_dropWhile)
qed

lemma split_ws_Nil: "split_ws [] = []"
  by (simp add: split_ws_def)

lemma is_space_blank: "is_space (CHR '' '')"
  by (simp add: is_space_def)

lemma split_ws_join: "split_ws (join '' '' xs) = concat (map split_ws xs)"
proof (induction "'' ''" xs rule: join.induct)
  case 1
  show ?case by (simp add: split_ws_def)
next
  case (2 x)
  show ?case by simp
next
  case (3 x y ys)
  have "split_ws (x @ CHR '' '' # join '' '' (y # ys)) = split_ws x @ split_ws (join '' '' (y # ys))"
    unfolding split_ws_def using is_space_blank by (rule split_acc_space_append)
  with 3 show ?case by simp
qed

lemma split_ws_get_text_strip:
  "split_ws (get_text_strip '' '' ss) = concat (map split_ws ss)"
proof -
  have "concat (map split_ws (filter (\<lambda>s. s \<noteq> []) (map strip ss))) = concat (map split_ws ss)"
  proof (induction ss)
    case Nil
    show ?case by simp
  next
    case (Cons a ss)
    have "strip a = [] \<Longrightarrow> split_ws a = []"
      using split_ws_strip [of a] by (simp add: split_ws_Nil)
    with Cons show ?case by (auto simp: split_ws_strip)
  qed
  then show ?thesis by (simp add: get_text_strip_def split_ws_join)
qed

lemma normalized_text_words:
  "normalized_text pg = join '' '' (concat (map split_ws (page_strings pg)))"
  by (simp add: normalized_text_def split_ws_get_text_strip)






text \<open>
  C7, as stated, fails: a response with status 204, a status of the 2xx range with a page
  that parses, is not a success for \<^verbatim>\<open>data_scrape\<close>. The result has status \<^verbatim>\<open>error\<close> and
  the reason \<^verbatim>\<open>Status code 204\<close>.
\<close>

theorem data_scrape_status_204_is_error:
  "example_get ''http://nocontent'' 10 = Response 204 (Inr example_page)
   \<and> info_status (data_scrape example_get ''http://nocontent'' 10 1) = ''error''
   \<and> info_error (data_scrape example_get ''http://nocontent'' 10 1) = Some ''Status code 204''
   \<and> info_status (data_scrape example_get ''http://nocontent'' 10 1) \<noteq> ''success''"
proof -
  have n204: "str_of_int 204 = ''204''" by code_simp
  have g: "example_get ''http://nocontent'' 10 = Response 204 (Inr example_page)"
    by (simp add: example_get_def)
  show ?thesis
    by (simp add: g data_scrape_def error_info_def n204)
qed

text \<open>
  C7, amended. \<^verbatim>\<open>data_scrape\<close> returns a result for every URL, timeout, rate limit and
  outcome of the fetch, and the result carries the URL it was given. The status is
  \<^verbatim>\<open>error\<close>, with a reason under \<^verbatim>\<open>error\<close>, or \<^verbatim>\<open>success\<close>, with the content. Every status
  code other than 200 (so every one outside 200-299, and 201-299 as well), a timeout, any
  other exception of the fetch and any exception while the page is processed give
  \<^verbatim>\<open>error\<close>; the status is \<^verbatim>\<open>success\<close> exactly for a response with status 200 whose page
  is processed without exception.
\<close>

theorem data_scrape_never_raises:
  "info_url (data_scrape get url timeout rate_limit) = url
   \<and> (info_status (data_scrape get url timeout rate_limit) = ''error''
        \<and> info_error (data_scrape get url timeout rate_limit) \<noteq> None
      \<or> info_status (data_scrape get url timeout rate_limit) = ''success''
        \<and> info_error (data_scrape get url timeout rate_limit) = None
        \<and> info_content (data_scrape get url timeout rate_limit) \<noteq> None)
   \<and> (get url timeout = Response status_code parsed \<and> status_code \<noteq> 200
       \<longrightarrow> info_status (data_scrape get url timeout rate_limit) = ''error''
         \<and> (0 \<le> rate_limit \<longrightarrow> info_error (data_scrape get url timeout rate_limit)
               = Some (''Status code '' @ str_of_int status_code)))
   \<and> (get url timeout = Timeout
       \<longrightarrow> info_status (data_scrape get url timeout rate_limit) = ''error''
         \<and> (0 \<le> rate_limit \<longrightarrow> info_error (data_scrape get url timeout rate_limit)
               = Some (''Timeout after '' @ str_of_int timeout @ '' seconds'')))
   \<and> (get url timeout = Failure err
       \<longrightarrow> info_status (data_scrape get url timeout rate_limit) = ''error''
         \<and> (0 \<le> rate_limit \<longrightarrow> info_error (data_scrape get url timeout rate_limit) = Some err))
   \<and> (get url timeout = Response 200 (Inl err)
       \<longrightarrow> info_status (data_scrape get url timeout rate_limit) = ''error''
         \<and> (0 \<le> rate_limit \<longrightarrow> info_error (data_scrape get url timeout rate_limit) = Some err))
   \<and> (rate_limit < 0 \<longrightarrow> info_status (data_scrape get url timeout rate_limit) = ''error'')
   \<and> (info_status (data_scrape get url timeout rate_limit) = ''success''
        \<longleftrightarrow> 0 \<le> rate_limit \<and> (\<exists>soup. get url timeout = Response 200 (Inr soup)))"
  by (cases "get url timeout")
     (auto simp: data_scrape_def error_info_def split: sum.splits)

theorem data_scrape_never_raises_witness:
  "info_status (data_scrape example_get ''http://gone'' 10 1) = ''error''
   \<and> info_error (data_scrape example_get ''http://gone'' 10 1) = Some ''Status code 404''
   \<and> info_error (data_scrape example_get ''http://nocontent'' 10 1) = Some ''Status code 204''
   \<and> info_error (data_scrape example_get ''http://slow'' 10 1) = Some ''Timeout after 10 seconds''
   \<and> info_error (data_scrape example_get ''http://down'' 10 1) = Some ''connection refused''
   \<and> info_error (data_scrape example_get ''http://broken'' 10 1) = Some ''recursion depth exceeded''
   \<and> info_status (data_scrape example_get ''http://ok'' 10 (- 1)) = ''error''
   \<and> info_status (data_scrape example_get ''http://ok'' 10 1) = ''success''"
proof -
  have n404: "str_of_int 404 = ''404''" by code_simp
  have n204: "str_of_int 204 = ''204''" by code_simp
  have n10: "str_of_int 10 = ''10''" by code_simp
  have g1: "example_get ''http://gone'' 10 = Response 404 (Inr example_page)"
    and g2: "example_get ''http://slow'' 10 = Timeout"
    and g3: "example_get ''http://down'' 10 = Failure ''connection refused''"
    and g4: "example_get ''http://ok'' 10 = Response 200 (Inr example_page)"
    and g5: "example_get ''http://nocontent'' 10 = Response 204 (Inr example_page)"
    and g6: "example_get ''http://broken'' 10 = Response 200 (Inl ''recursion depth exceeded'')"
    by (simp_all add: example_get_def)
  from data_scrape_never_raises
         [where get = example_get and url = "''http://gone''" and timeout = 10
            and rate_limit = 1 and status_code = 404 and parsed = "Inr example_page"] g1 n404
  have "info_status (data_scrape example_get ''http://gone'' 10 1) = ''error''
     \<and> info_error (data_scrape example_get ''http://gone'' 10 1) = Some ''Status code 404''"
    by simp
  moreover
  from data_scrape_never_raises
         [where get = example_get and url = "''http://nocontent''" and timeout = 10
            and rate_limit = 1 and status_code = 204 and parsed = "Inr example_page"] g5 n204
  have "info_error (data_scrape example_get ''http://nocontent'' 10 1) = Some ''Status code 204''"
    by simp
  moreover
  from data_scrape_never_raises
         [where get = example_get and url = "''http://slow''" and timeout = 10
            and rate_limit = 1] g2 n10
  have "info_error (data_scrape example_get ''http://slow'' 10 1) = Some ''Timeout after 10 seconds''"
    by simp
  moreover
  from data_scrape_never_raises
         [where get = example_get and url = "''http://down''" and timeout = 10
            and rate_limit = 1 and err = "''connection refused''"] g3
  have "info_error (data_scrape example_get ''http://down'' 10 1) = Some ''connection refused''"
    by simp
  moreover
  from data_scrape_never_raises
         [where get = example_get and url = "''http://broken''" and timeout = 10
            and rate_limit = 1 and err = "''recursion depth exceeded''"] g6
  have "info_error (data_scrape example_get ''http://broken'' 10 1) = Some ''recursion depth exceeded''"
    by simp
  moreover
  from data_scrape_never_raises
         [where get = example_get and url = "''http://ok''" and timeout = 10
            and rate_limit = "- 1"]
  have "info_status (data_scrape example_get ''http://ok'' 10 (- 1)) = ''error''"
    by simp
  moreover
  from data_scrape_never_raises
         [where get = example_get and url = "''http://ok''" and timeout = 10
            and rate_limit = 1] g4
  have "info_status (data_scrape example_get ''http://ok'' 10 1) = ''success''"
    by simp
  ultimately show ?thesis by blast
qed

section \<open>Ingestion\<close>

lemma embed_loop_none_survive:
  "\<forall>it \<in> set files. \<not> survives it \<Longrightarrow> embed_loop encode files acc = Inr acc"
  by (induction files arbitrary: acc) auto

lemma embed_loop_length:
  "embed_loop encode files acc = Inr cs \<Longrightarrow> length cs = length acc + length (filter survives files)"
proof (induction files arbitrary: acc)
  case Nil
  then show ?case by simp
next
  case (Cons it files)
  show ?case
  proof (cases "survives it")
    case False
    with Cons show ?thesis by simp
  next
    case True
    with Cons.prems obtain v where v: "encode (the (item_content it)) = Inr v"
      by (cases "encode (the (item_content it))") auto
    with True Cons.prems Cons.IH show ?thesis by fastforce
  qed
qed

lemma embed_loop_raises:
  "it \<in> set files \<Longrightarrow> survives it \<Longrightarrow> encode (the (item_content it)) = Inl err
   \<Longrightarrow> \<exists>err'. embed_loop encode files acc = Inl err'"
proof (induction files arbitrary: acc)
  case Nil
  then show ?case by simp
next
  case (Cons a files)
  show ?case
  proof (cases "survives a")
    case False
    with Cons show ?thesis by auto
  next
    case True
    show ?thesis
    proof (cases "encode (the (item_content a))")
      case (Inl e)
      with True show ?thesis by simp
    next
      case (Inr v)
      with Cons.prems have "it \<in> set files" by auto
      from Cons.IH [OF this Cons.prems(2,3)] True Inr show ?thesis by simp
    qed
  qed
qed

lemma create_faiss_index_ok:
  "create_faiss_index cs dk = Inr dk' \<Longrightarrow> cs \<noteq> [] \<Longrightarrow>
     embeddings_pkl dk' = embeddings_pkl dk \<and> map_option ntotal (faiss_index_idx dk') = Some (length cs)"
  by (auto simp: create_faiss_index_def ntotal_def Let_def split: list.splits if_splits)

text \<open>
  C4. When every item of the batch lacks its name or its content, \<^verbatim>\<open>upload_folder\<close>
  answers that there is nothing to embed, with status 200, and writes nothing: the chunk
  store file and the index file are what they were before the call.
\<close>

theorem upload_folder_empty_batch:
  "\<forall>it \<in> set files. \<not> truthy (item_name it) \<or> \<not> truthy (item_content it) \<Longrightarrow>
   upload_folder encode files dk = ((Message ''No valid files processed. Nothing to embed.'', 200), dk)"
  using embed_loop_none_survive [of files encode "[]"]
  by (simp add: upload_folder_def survives_def)

theorem upload_folder_empty_batch_witness:
  "upload_folder example_encode empty_batch old_disk
     = ((Message ''No valid files processed. Nothing to embed.'', 200), old_disk)"
  using upload_folder_empty_batch [of empty_batch example_encode old_disk]
  by (simp add: empty_batch_def truthy_def)

text \<open>
  C5. When \<open>N \<ge> 1\<close> items have both a name and a content and \<^verbatim>\<open>upload_folder\<close> answers
  with status 200, the chunk store on disk holds exactly \<open>N\<close> chunks and the index on disk
  holds exactly \<open>N\<close> vectors, so the two counts agree.
\<close>

theorem upload_folder_counts:
  assumes "1 \<le> length (filter survives files)"
    and "snd (fst (upload_folder encode files dk)) = 200"
  shows "map_option length (embeddings_pkl (snd (upload_folder encode files dk)))
           = Some (length (filter survives files))
       \<and> map_option ntotal (faiss_index_idx (snd (upload_folder encode files dk)))
           = Some (length (filter survives files))"
proof (cases "embed_loop encode files []")
  case (Inl e)
  with assms(2) show ?thesis by (simp add: upload_folder_def)
next
  case (Inr cs)
  from embed_loop_length [OF Inr] have len: "length cs = length (filter survives files)" by simp
  with assms(1) have ne: "cs \<noteq> []" by auto
  show ?thesis
  proof (cases "create_faiss_index cs (store_embeddings cs dk)")
    case (Inl e)
    with Inr ne assms(2) show ?thesis by (simp add: upload_folder_def Let_def)
  next
    case (Inr dk2)
    from create_faiss_index_ok [OF Inr ne] len \<open>embed_loop encode files [] = Inr cs\<close> ne Inr
    show ?thesis by (simp add: upload_folder_def Let_def store_embeddings_def)
  qed
qed

theorem upload_folder_counts_witness:
  "map_option length (embeddings_pkl (snd (upload_folder example_encode good_batch old_disk))) = Some 2
   \<and> map_option ntotal (faiss_index_idx (snd (upload_folder example_encode good_batch old_disk))) = Some 2"
proof -
  have n: "length (filter survives good_batch) = 2"
    by (simp add: good_batch_def survives_def truthy_def)
  have ok: "snd (fst (upload_folder example_encode good_batch old_disk)) = 200"
    by (simp add: upload_folder_def good_batch_def survives_def truthy_def example_encode_def
        create_faiss_index_def store_embeddings_def)
  from upload_folder_counts [of good_batch example_encode old_disk] n ok
  show ?thesis by simp
qed

text \<open>
  C9. When the embedding of one surviving item raises, \<^verbatim>\<open>upload_folder\<close> answers with
  an error body and status 500, and neither file has been written: every embedding is
  computed before the first write. The failing item is not skipped; no later item is
  stored either.
\<close>

theorem upload_folder_embedding_failure:
  "it \<in> set files \<Longrightarrow> survives it \<Longrightarrow> encode (the (item_content it)) = Inl err \<Longrightarrow>
   \<exists>msg. upload_folder encode files dk = ((Error msg, 500), dk)"
  using embed_loop_raises [of it files encode err "[]"]
  by (auto simp: upload_folder_def)

theorem upload_folder_embedding_failure_witness:
  "\<exists>msg. upload_folder example_encode bad_batch old_disk = ((Error msg, 500), old_disk)"
proof -
  let ?it = "\<lparr>item_name = Some ''b.txt'', item_content = Some ''bad''\<rparr>"
  have 1: "?it \<in> set bad_batch" by (simp add: bad_batch_def)
  have 2: "survives ?it" by (simp add: survives_def truthy_def)
  have 3: "example_encode (the (item_content ?it)) = Inl ''model failure''"
    by (simp add: example_encode_def)
  from upload_folder_embedding_failure [where encode = example_encode, OF 1 2 3] show ?thesis .
qed


section \<open>Source orchestrator\<close>

lemma search_calls_Fetch: "search_calls (evs @ [Fetch u]) = search_calls evs"
  by (simp add: search_calls_def)

lemma search_calls_Search: "search_calls (evs @ [Search q]) = Suc (search_calls evs)"
  by (simp add: search_calls_def)

lemma search_calls_Chat: "search_calls (evs @ [Chat b m]) = search_calls evs"
  by (simp add: search_calls_def)

lemma scrape_snd: "snd (scrape e url evs) = evs @ [Fetch url]"
  by (simp add: scrape_def)


lemma preferred_loop_relevant:
  "\<forall>i \<in> set acc. relevant q i \<Longrightarrow> \<forall>i \<in> set (fst (preferred_loop e q urls acc evs)). relevant q i"
proof (induction urls arbitrary: acc evs)
  case Nil
  then show ?case by simp
next
  case (Cons url urls)
  define i where "i = fst (scrape e url evs)"
  define evs' where "evs' = snd (scrape e url evs)"
  have sc: "scrape e url evs = (i, evs')" by (simp add: i_def evs'_def)
  define acc' where "acc' = (if relevant q i then acc @ [i] else acc)"
  from Cons.prems have "\<forall>j \<in> set acc'. relevant q j" by (simp add: acc'_def)
  from Cons.IH [OF this, of evs'] have "\<forall>i\<in>set (fst (preferred_loop e q urls acc' evs')). relevant q i" .
  moreover have "preferred_loop e q (url # urls) acc evs = preferred_loop e q urls acc' evs'"
    by (simp add: sc acc'_def)
  ultimately show ?case by simp
qed

lemma preferred_loop_search_calls:
  "search_calls (snd (preferred_loop e q urls acc evs)) = search_calls evs"
proof (induction urls arbitrary: acc evs)
  case Nil
  show ?case by simp
next
  case (Cons url urls)
  define i where "i = fst (scrape e url evs)"
  define evs' where "evs' = snd (scrape e url evs)"
  have sc: "scrape e url evs = (i, evs')" by (simp add: i_def evs'_def)
  define acc' where "acc' = (if relevant q i then acc @ [i] else acc)"
  have "search_calls evs' = search_calls evs"
    by (simp add: evs'_def scrape_snd search_calls_Fetch)
  moreover have "preferred_loop e q (url # urls) acc evs = preferred_loop e q urls acc' evs'"
    by (simp add: sc acc'_def)
  ultimately show ?case using Cons.IH [of acc' evs'] by simp
qed

lemma fallback_loop_search_calls:
  "search_calls (snd (fallback_loop e q urls acc evs)) = search_calls evs"
proof (induction urls arbitrary: acc evs)
  case Nil
  show ?case by simp
next
  case (Cons url urls)
  define i where "i = fst (scrape e url evs)"
  define evs' where "evs' = snd (scrape e url evs)"
  have sc: "scrape e url evs = (i, evs')" by (simp add: i_def evs'_def)
  have "search_calls evs' = search_calls evs"
    by (simp add: evs'_def scrape_snd search_calls_Fetch)
  moreover have "fallback_loop e q (url # urls) acc evs = fallback_loop e q urls (add_context q i acc) evs'"
    by (simp add: sc)
  ultimately show ?case using Cons.IH [of "add_context q i acc" evs'] by simp
qed

lemma search_preferred_urls_relevant:
  "\<forall>i \<in> set (fst (search_preferred_urls e q evs)). relevant q i"
  unfolding search_preferred_urls_def by (rule preferred_loop_relevant) simp

lemma search_preferred_urls_search_calls:
  "search_calls (snd (search_preferred_urls e q evs)) = search_calls evs"
  unfolding search_preferred_urls_def by (rule preferred_loop_search_calls)

lemma complete_advanced_log:
  "log (snd (complete_advanced e q r m ctx st)) = log st @ [Chat OpenAI m]"
  by (simp add: complete_advanced_def Let_def)


lemma create_advanced_response_unfold:
  "create_advanced_response e q r m st =
     (let sp = search_preferred_urls e q (log st);
          cl = context_loop q (fst sp) ([], {});
          gs = google_search e (snd sp) q;
          fl = fallback_loop e q (fst gs) cl (snd sp @ [Search q])
      in if \<not> list_ex (relevant q) (fst sp)
         then (case snd gs of
                 Some err \<Rightarrow> (Inl err, st\<lparr>used_urls := snd (fst fl), log := snd fl\<rparr>)
               | None \<Rightarrow> complete_advanced e q r m (fst (fst fl))
                           (st\<lparr>used_urls := snd (fst fl), log := snd fl\<rparr>))
         else complete_advanced e q r m (fst cl) (st\<lparr>used_urls := snd cl, log := snd sp\<rparr>))"
  by (simp add: create_advanced_response_def split_def Let_def)

lemma create_advanced_response_search_calls:
  "search_calls (log (snd (create_advanced_response e q r m st)))
     = search_calls (log st)
       + (if list_ex (relevant q) (fst (search_preferred_urls e q (log st))) then 0 else 1)"
proof -
  define sp where "sp = search_preferred_urls e q (log st)"
  define cl where "cl = context_loop q (fst sp) ([], {})"
  define gs where "gs = google_search e (snd sp) q"
  define fl where "fl = fallback_loop e q (fst gs) cl (snd sp @ [Search q])"
  have c1: "search_calls (snd sp) = search_calls (log st)"
    unfolding sp_def by (rule search_preferred_urls_search_calls)
  have c2: "search_calls (snd fl) = Suc (search_calls (log st))"
    unfolding fl_def by (simp add: fallback_loop_search_calls search_calls_Search c1)
  show ?thesis
  proof (cases "list_ex (relevant q) (fst sp)")
    case True
    then have "create_advanced_response e q r m st
        = complete_advanced e q r m (fst cl) (st\<lparr>used_urls := snd cl, log := snd sp\<rparr>)"
      by (simp add: create_advanced_response_unfold Let_def sp_def cl_def)
    with True c1 show ?thesis
      by (simp add: complete_advanced_log search_calls_Chat sp_def)
  next
    case False
    show ?thesis
    proof (cases "snd gs")
      case None
      with False have "create_advanced_response e q r m st
          = complete_advanced e q r m (fst (fst fl)) (st\<lparr>used_urls := snd (fst fl), log := snd fl\<rparr>)"
        by (simp add: create_advanced_response_unfold Let_def sp_def cl_def gs_def fl_def)
      with False c2 show ?thesis
        by (simp add: complete_advanced_log search_calls_Chat sp_def)
    next
      case (Some err)
      with False have "create_advanced_response e q r m st
          = (Inl err, st\<lparr>used_urls := snd (fst fl), log := snd fl\<rparr>)"
        by (simp add: create_advanced_response_unfold Let_def sp_def cl_def gs_def fl_def)
      with False c2 show ?thesis by (simp add: sp_def)
    qed
  qed
qed

lemma example_content:
  "remove_duplicate_sentences (extract_main_content example_page) = ''Rates Short. Short.''"
proof -
  have "accumulated_text example_page = []"
    by (simp add: accumulated_text_def example_page_def is_heading_def)
  moreover have "normalized_text example_page = ''Rates Short. Short.''"
    by (simp add: normalized_text_def get_text_strip_def example_page_def strip_def is_space_def
        split_ws_def)
  ultimately have "extract_main_content example_page = ''Rates Short. Short.''"
    by (simp add: extract_main_content_def)
  then show ?thesis
    by (simp add: remove_duplicate_sentences_def is_end_def is_space_def)
qed

lemma example_urls: "get_preferred_urls (preferred_urls_txt example_env evs) = [''http://ok'']"
  by (simp add: example_env_def get_preferred_urls_def readlines_def strip_def is_space_def)

lemma example_scrape:
  "scrape example_env ''http://ok'' evs =
     (\<lparr>info_url = ''http://ok'', info_status = ''success'', info_error = None,
       info_metadata = Some (extract_metadata example_page),
       info_content = Some ''Rates Short. Short.''\<rparr>, evs @ [Fetch ''http://ok''])"
  by (simp add: scrape_def example_env_def data_scrape_def example_get_def example_content)

lemma km_rates: "keyword_match ''rates'' ''Rates Short. Short.''"
proof -
  have "lower ''Rates Short. Short.'' = ''rates short. short.''" by code_simp
  moreover have "lower ''rates'' = ''rates''" by code_simp
  ultimately show ?thesis by (simp add: keyword_match_def split_ws_def is_space_def)
qed

lemma km_bonds: "\<not> keyword_match ''bonds'' ''Rates Short. Short.''"
proof -
  have "lower ''Rates Short. Short.'' = ''rates short. short.''" by code_simp
  moreover have "lower ''bonds'' = ''bonds''" by code_simp
  ultimately show ?thesis by (simp add: keyword_match_def split_ws_def is_space_def)
qed

lemma sp_rates:
  "fst (search_preferred_urls example_env ''rates'' evs) =
     [\<lparr>info_url = ''http://ok'', info_status = ''success'', info_error = None,
       info_metadata = Some (extract_metadata example_page),
       info_content = Some ''Rates Short. Short.''\<rparr>]"
  by (simp add: search_preferred_urls_def example_urls example_scrape relevant_def km_rates)

lemma sp_bonds: "fst (search_preferred_urls example_env ''bonds'' evs) = []"
  by (simp add: search_preferred_urls_def example_urls example_scrape relevant_def km_bonds)

text \<open>
  C2. In a run of \<^verbatim>\<open>create_advanced_response\<close>, when the preferred phase
  (\<^verbatim>\<open>search_preferred_urls\<close>) returns at least one result with status \<^verbatim>\<open>success\<close> that
  passes the relevance filter, the general web search is not called: the number of search
  calls in the log is what it was before the run. The search is called, exactly once,
  only when the preferred phase returned no relevant result.
\<close>

theorem fallback_search_only_without_preferred_result:
  "((\<exists>i \<in> set (fst (search_preferred_urls e q (log st))).
        info_status i = ''success''
        \<and> keyword_match q (case info_content i of None \<Rightarrow> [] | Some c \<Rightarrow> c))
      \<longrightarrow> search_calls (log (snd (create_advanced_response e q r m st))) = search_calls (log st))
   \<and> (search_calls (log (snd (create_advanced_response e q r m st))) \<noteq> search_calls (log st)
      \<longrightarrow> filter (relevant q) (fst (search_preferred_urls e q (log st))) = []
        \<and> search_calls (log (snd (create_advanced_response e q r m st))) = Suc (search_calls (log st)))
   \<and> (filter (relevant q) (fst (search_preferred_urls e q (log st))) = []
      \<longrightarrow> search_calls (log (snd (create_advanced_response e q r m st))) = Suc (search_calls (log st)))"
proof -
  let ?pil = "fst (search_preferred_urls e q (log st))"
  have ex: "list_ex (relevant q) ?pil \<longleftrightarrow> (\<exists>i \<in> set ?pil. info_status i = ''success''
        \<and> keyword_match q (case info_content i of None \<Rightarrow> [] | Some c \<Rightarrow> c))"
    by (simp add: list_ex_iff relevant_def)
  have em: "filter (relevant q) ?pil = [] \<longleftrightarrow> \<not> list_ex (relevant q) ?pil"
    by (simp add: list_ex_iff filter_empty_conv)
  show ?thesis
    using create_advanced_response_search_calls [of e q r m st]
    unfolding em ex [symmetric]
    by (cases "list_ex (relevant q) ?pil") simp_all
qed

theorem fallback_search_only_without_preferred_result_witness:
  "search_calls (log (snd (create_advanced_response example_env ''rates'' 0 ''advanced'' example_state))) = 0
   \<and> search_calls (log (snd (create_advanced_response example_env ''bonds'' 0 ''advanced'' example_state))) = 1"
proof -
  have l0: "log example_state = []" by (simp add: example_state_def)
  have h1: "\<exists>i \<in> set (fst (search_preferred_urls example_env ''rates'' (log example_state))).
        info_status i = ''success''
        \<and> keyword_match ''rates'' (case info_content i of None \<Rightarrow> [] | Some c \<Rightarrow> c)"
    by (simp add: sp_rates km_rates)
  have h2: "filter (relevant ''bonds'') (fst (search_preferred_urls example_env ''bonds'' (log example_state))) = []"
    by (simp add: sp_bonds)
  from fallback_search_only_without_preferred_result
         [of example_env "''rates''" example_state 0 "''advanced''"] h1
  have "search_calls (log (snd (create_advanced_response example_env ''rates'' 0 ''advanced'' example_state))) = 0"
    by (simp add: l0 search_calls_def)
  moreover
  from fallback_search_only_without_preferred_result
         [of example_env "''bonds''" example_state 0 "''advanced''"] h2
  have "search_calls (log (snd (create_advanced_response example_env ''bonds'' 0 ''advanced'' example_state))) = 1"
    by (simp add: l0 search_calls_def)
  ultimately show ?thesis by simp
qed

section \<open>Conversation transcript\<close>

lemma complete_advanced_heap:
  "heap (snd (complete_advanced e q r m ctx st))
     = (heap st)[r := heap st ! r @ ctx @ [final_message q]]"
  by (simp add: complete_advanced_def Let_def)

lemma complete_advanced_fst:
  "fst (complete_advanced e q r m ctx st)
     = chat_completion e (log st) OpenAI m (heap st ! r @ ctx @ [final_message q])"
  by (simp add: complete_advanced_def Let_def)

lemma create_advanced_response_shape:
  "(\<exists>ctx used evs. create_advanced_response e q r m st
        = complete_advanced e q r m ctx (st\<lparr>used_urls := used, log := evs\<rparr>))
   \<or> (\<exists>err used evs. create_advanced_response e q r m st
        = (Inl err, st\<lparr>used_urls := used, log := evs\<rparr>))"
proof -
  let ?sp = "search_preferred_urls e q (log st)"
  let ?gs = "google_search e (snd ?sp) q"
  show ?thesis
  proof (cases "list_ex (relevant q) (fst ?sp)")
    case True
    then have "\<exists>ctx used evs. create_advanced_response e q r m st
        = complete_advanced e q r m ctx (st\<lparr>used_urls := used, log := evs\<rparr>)"
      by (simp add: create_advanced_response_unfold Let_def) blast
    then show ?thesis by (rule disjI1)
  next
    case False
    show ?thesis
    proof (cases "snd ?gs")
      case None
      with False have "\<exists>ctx used evs. create_advanced_response e q r m st
          = complete_advanced e q r m ctx (st\<lparr>used_urls := used, log := evs\<rparr>)"
        by (simp add: create_advanced_response_unfold Let_def) blast
      then show ?thesis by (rule disjI1)
    next
      case (Some err)
      with False have "\<exists>err used evs. create_advanced_response e q r m st
          = (Inl err, st\<lparr>used_urls := used, log := evs\<rparr>)"
        by (simp add: create_advanced_response_unfold Let_def) blast
      then show ?thesis by (rule disjI2)
    qed
  qed
qed

lemma create_advanced_response_heap:
  "\<exists>ms. heap (snd (create_advanced_response e q r m st)) = (heap st)[r := ms]"
proof -
  from create_advanced_response_shape [of e q r m st] show ?thesis
  proof (elim disjE exE)
    fix ctx used evs
    assume "create_advanced_response e q r m st
        = complete_advanced e q r m ctx (st\<lparr>used_urls := used, log := evs\<rparr>)"
    then have "heap (snd (create_advanced_response e q r m st))
        = (heap st)[r := heap st ! r @ ctx @ [final_message q]]"
      by (simp add: complete_advanced_heap)
    then show ?thesis by blast
  next
    fix err used evs
    assume "create_advanced_response e q r m st = (Inl err, st\<lparr>used_urls := used, log := evs\<rparr>)"
    then have "heap (snd (create_advanced_response e q r m st)) = (heap st)[r := heap st ! r]"
      by simp
    then show ?thesis by blast
  qed
qed

lemma create_advanced_response_appends:
  assumes "fst (create_advanced_response e q r m st) = Inr answer"
  shows "\<exists>ctx. heap (snd (create_advanced_response e q r m st))
           = (heap st)[r := heap st ! r @ ctx @ [final_message q]]"
proof -
  from create_advanced_response_shape [of e q r m st] show ?thesis
  proof (elim disjE exE)
    fix ctx used evs
    assume "create_advanced_response e q r m st
        = complete_advanced e q r m ctx (st\<lparr>used_urls := used, log := evs\<rparr>)"
    then have "heap (snd (create_advanced_response e q r m st))
        = (heap st)[r := heap st ! r @ ctx @ [final_message q]]"
      by (simp add: complete_advanced_heap)
    then show ?thesis by blast
  next
    fix err used evs
    assume "create_advanced_response e q r m st = (Inl err, st\<lparr>used_urls := used, log := evs\<rparr>)"
    with assms show ?thesis by simp
  qed
qed

lemma create_response_heap: "heap (snd (create_response e q r m st)) = heap st"
  by (simp add: create_response_def Let_def)

lemma models_loop_frame:
  "a < length (heap st) \<Longrightarrow>
     heap (snd (models_loop e q a models responses st)) ! a = heap st ! a
     \<and> length (heap st) \<le> length (heap (snd (models_loop e q a models responses st)))"
proof (induction models arbitrary: responses st)
  case Nil
  show ?case by simp
next
  case (Cons model models)
  let ?copy = "length (heap st)"
  let ?st1 = "st\<lparr>heap := heap st @ [heap st ! a]\<rparr>"
  define res where "res = (if str_contains ''advanced'' model
              then create_advanced_response e q ?copy model ?st1
              else create_response e q ?copy model ?st1)"
  have "\<exists>ms. heap (snd res) = (heap ?st1)[?copy := ms]"
  proof (cases "str_contains ''advanced'' model")
    case True
    with create_advanced_response_heap [of e q ?copy model ?st1] show ?thesis
      by (simp add: res_def)
  next
    case False
    then have "heap (snd res) = (heap ?st1)[?copy := heap ?st1 ! ?copy]"
      by (simp add: res_def create_response_heap)
    then show ?thesis by blast
  qed
  then obtain ms where ms: "heap (snd res) = (heap ?st1)[?copy := ms]" by blast
  have a2: "heap (snd res) ! a = heap st ! a"
    using Cons.prems unfolding ms by (simp add: nth_append)
  have l2: "length (heap (snd res)) = Suc (length (heap st))"
    unfolding ms by simp
  have step: "models_loop e q a (model # models) responses st =
      (case fst res of Inl err \<Rightarrow> (Inl err, snd res)
       | Inr answer \<Rightarrow> models_loop e q a models (responses(model \<mapsto> answer)) (snd res))"
    unfolding res_def by (simp add: list_copy_def split_def Let_def cong: sum.case_cong)
  show ?case
  proof (cases "fst res")
    case (Inl err)
    with step have "models_loop e q a (model # models) responses st = (Inl err, snd res)"
      by simp
    with a2 l2 show ?thesis by simp
  next
    case (Inr answer)
    define r2 where "r2 = responses(model \<mapsto> answer)"
    from Inr step have s2: "models_loop e q a (model # models) responses st
        = models_loop e q a models r2 (snd res)"
      by (simp add: r2_def)
    from Cons.prems l2 have "a < length (heap (snd res))" by simp
    from Cons.IH [OF this, of r2] a2 l2
    show ?thesis unfolding s2 by simp
  qed
qed

lemma create_rag_response_appends:
  "r < length (heap st) \<Longrightarrow> fst (create_rag_response e q r m st) = Inr answer \<Longrightarrow>
   heap (snd (create_rag_response e q r m st)) ! r
     = heap st ! r @ [\<lparr>msg_role = ''user'', msg_content = answer\<rparr>]"
  by (cases "get_rag_response e (log st) q m") (simp_all add: create_rag_response_def)

text \<open>
  C10. \<^verbatim>\<open>handle_multiple_models\<close> leaves the message list of its caller as it was,
  whatever the question, the models and the answers of the collaborators, also when a
  model call raises: every per-model call receives a copy. The callees do change the list
  they are given: \<^verbatim>\<open>create_advanced_response\<close>, when it returns, has appended the
  context messages and the final query message, and \<^verbatim>\<open>create_rag_response\<close> has appended
  one message holding its answer.
\<close>

theorem handle_multiple_models_keeps_callers_list:
  assumes "message_list < length (heap st)"
  shows "heap (snd (handle_multiple_models e question message_list models st)) ! message_list
           = heap st ! message_list
    \<and> (\<forall>answer. fst (create_advanced_response e question message_list model st) = Inr answer \<longrightarrow>
         (\<exists>context_messages.
            heap (snd (create_advanced_response e question message_list model st)) ! message_list
              = heap st ! message_list @ context_messages @ [final_message question]))
    \<and> (\<forall>answer. fst (create_rag_response e question message_list model st) = Inr answer \<longrightarrow>
         heap (snd (create_rag_response e question message_list model st)) ! message_list
           = heap st ! message_list @ [\<lparr>msg_role = ''user'', msg_content = answer\<rparr>])"
proof (intro conjI allI impI)
  show "heap (snd (handle_multiple_models e question message_list models st)) ! message_list
           = heap st ! message_list"
    unfolding handle_multiple_models_def
    using models_loop_frame [OF assms, of e question models Map.empty] by (rule conjunct1)
next
  fix answer
  assume "fst (create_advanced_response e question message_list model st) = Inr answer"
  from create_advanced_response_appends [OF this] obtain ctx where
    "heap (snd (create_advanced_response e question message_list model st))
       = (heap st)[message_list := heap st ! message_list @ ctx @ [final_message question]]"
    by blast
  with assms have "heap (snd (create_advanced_response e question message_list model st)) ! message_list
              = heap st ! message_list @ ctx @ [final_message question]" by simp
  then show "\<exists>context_messages.
            heap (snd (create_advanced_response e question message_list model st)) ! message_list
              = heap st ! message_list @ context_messages @ [final_message question]" by blast
next
  fix answer
  assume "fst (create_rag_response e question message_list model st) = Inr answer"
  with assms show "heap (snd (create_rag_response e question message_list model st)) ! message_list
           = heap st ! message_list @ [\<lparr>msg_role = ''user'', msg_content = answer\<rparr>]"
    by (rule create_rag_response_appends)
qed

theorem handle_multiple_models_keeps_callers_list_witness:
  "heap (snd (handle_multiple_models example_env ''rates'' 0 [''advanced'', ''gpt-4o''] example_state)) ! 0
     = [\<lparr>msg_role = ''system'', msg_content = ''You are a helpful assistant.''\<rparr>]
   \<and> (\<exists>context_messages.
        heap (snd (create_advanced_response example_env ''rates'' 0 ''advanced'' example_state)) ! 0
          = [\<lparr>msg_role = ''system'', msg_content = ''You are a helpful assistant.''\<rparr>]
            @ context_messages @ [final_message ''rates''])
   \<and> heap (snd (create_rag_response example_env ''rates'' 0 ''advanced'' example_state)) ! 0
       = [\<lparr>msg_role = ''system'', msg_content = ''You are a helpful assistant.''\<rparr>,
          \<lparr>msg_role = ''user'', msg_content = ''rag answer''\<rparr>]"
proof -
  have h0: "heap example_state ! 0 = [\<lparr>msg_role = ''system'', msg_content = ''You are a helpful assistant.''\<rparr>]"
    by (simp add: example_state_def)
  have p: "0 < length (heap example_state)" by (simp add: example_state_def)
  have "list_ex (relevant ''rates'') (fst (search_preferred_urls example_env ''rates'' (log example_state)))"
    by (simp add: sp_rates relevant_def km_rates)
  then have "fst (create_advanced_response example_env ''rates'' 0 ''advanced'' example_state)
      = chat_completion example_env
          (snd (search_preferred_urls example_env ''rates'' (log example_state))) OpenAI ''advanced''
          (heap example_state ! 0
           @ fst (context_loop ''rates''
                   (fst (search_preferred_urls example_env ''rates'' (log example_state))) ([], {}))
           @ [final_message ''rates''])"
    by (simp add: create_advanced_response_unfold Let_def complete_advanced_fst)
  then have a: "fst (create_advanced_response example_env ''rates'' 0 ''advanced'' example_state) = Inr ''answer''"
    by (simp add: example_env_def)
  have r: "fst (create_rag_response example_env ''rates'' 0 ''advanced'' example_state) = Inr ''rag answer''"
    by (simp add: create_rag_response_def example_env_def)
  from handle_multiple_models_keeps_callers_list
         [OF p, of example_env "''rates''" "[''advanced'', ''gpt-4o'']" "''advanced''"] a r
  show ?thesis unfolding h0 by simp
qed

end
